theory Spec2Isabelle
  imports Main "HOL-Library.Word"
begin

section \<open>Conway's Game of Life on a toroidal grid (GOLcpp.cpp)\<close>

text \<open>
  The program keeps two arrays \<^verbatim>\<open>unsigned char grid[gridWidth][gridHeight]\<close> and
  \<^verbatim>\<open>gridCopy\<close> of the same type. A cell is one byte; an array is a contiguous block of
  \<open>gridWidth * gridHeight\<close> bytes in which \<^verbatim>\<open>g[x][y]\<close> is the byte at offset
  \<open>x * gridHeight + y\<close>. The extents are compile-time constants of the source (200 and 200);
  they are parameters \<open>W\<close> and \<open>H\<close> here, so that the same code can be read at other extents.
  Coordinates, extents and counts are natural numbers: the extents fit in an \<^verbatim>\<open>int\<close>, and
  the source's \<^verbatim>\<open>int\<close> and \<^verbatim>\<open>unsigned int\<close> values stay between 0 and the extent (or 8
  for the count), so no machine arithmetic wraps. The subtraction \<^verbatim>\<open>x - 1\<close> is only
  evaluated when \<open>x \<noteq> 0\<close>.
\<close>

subsection \<open>Cells and arrays\<close>

type_synonym cell = "8 word"
type_synonym board = "cell list"

definition at :: "nat \<Rightarrow> board \<Rightarrow> nat \<Rightarrow> nat \<Rightarrow> cell" where
  \<comment> \<open>the read \<^verbatim>\<open>g[x][y]\<close>\<close>
  "at H g x y = g ! (x * H + y)"

definition put :: "nat \<Rightarrow> board \<Rightarrow> nat \<Rightarrow> nat \<Rightarrow> cell \<Rightarrow> board" where
  \<comment> \<open>the assignment \<^verbatim>\<open>g[x][y] = v\<close>\<close>
  "put H g x y v = g[x * H + y := v]"

definition memcpy :: "board \<Rightarrow> board \<Rightarrow> nat \<Rightarrow> board" where
  \<comment> \<open>\<^verbatim>\<open>memcpy(dst, src, n)\<close>: the first \<open>n\<close> bytes of \<open>dst\<close> are replaced by those of \<open>src\<close>\<close>
  "memcpy dst src n = take n src @ drop n dst"

subsection \<open>Program state\<close>

definition white :: nat where
  "white = 255"

definition black :: nat where
  "black = 0"

text \<open>
  \<open>grid\<close> and \<open>gridCopy\<close> are the two local arrays of \<^verbatim>\<open>main\<close>, which are distinct objects.
  \<open>drawn\<close> records the calls of \<^verbatim>\<open>DrawCell(x, y, colour)\<close> in order (the window surface is
  written and never read by the simulation). \<open>rand_calls\<close> counts the calls of \<^verbatim>\<open>rand()\<close>
  made so far.
\<close>

record sim =
  grid :: board
  gridCopy :: board
  drawn :: "(nat \<times> nat \<times> nat) list"
  rand_calls :: nat

definition DrawCell :: "nat \<Rightarrow> nat \<Rightarrow> nat \<Rightarrow> sim \<Rightarrow> sim" where
  "DrawCell x y colour s = s\<lparr>drawn := drawn s @ [(x, y, colour)]\<rparr>"

definition sized :: "nat \<Rightarrow> nat \<Rightarrow> sim \<Rightarrow> bool" where
  \<comment> \<open>both arrays have the declared type \<^verbatim>\<open>unsigned char[W][H]\<close>\<close>
  "sized W H s \<longleftrightarrow> length (grid s) = W * H \<and> length (gridCopy s) = W * H"

subsection \<open>InitGrid\<close>

text \<open>
  \<open>rnd k\<close> is the value the \<open>k\<close>-th call of \<^verbatim>\<open>rand()\<close> returns after \<^verbatim>\<open>srand(seed)\<close>;
  \<open>P\<close> is \<^verbatim>\<open>percentageInit\<close>.
\<close>

definition init_cell :: "nat \<Rightarrow> nat \<Rightarrow> (nat \<Rightarrow> nat) \<Rightarrow> nat \<Rightarrow> nat \<Rightarrow> sim \<Rightarrow> sim" where
  "init_cell H P rnd i j s =
    (let r = rnd (rand_calls s);
         s1 = s\<lparr>grid := put H (grid s) i j (if r mod 100 < P then 1 else 0),
                rand_calls := rand_calls s + 1\<rparr>
     in if at H (grid s1) i j = 1 then DrawCell i j white s1 else DrawCell i j black s1)"

definition InitGrid :: "nat \<Rightarrow> nat \<Rightarrow> nat \<Rightarrow> (nat \<Rightarrow> nat) \<Rightarrow> sim \<Rightarrow> sim" where
  "InitGrid W H P rnd s = fold (\<lambda>i. fold (\<lambda>j. init_cell H P rnd i j) [0..<H]) [0..<W] s"

subsection \<open>LiveNeighbourCount\<close>

definition neighbour_cells :: "nat \<Rightarrow> nat \<Rightarrow> nat \<Rightarrow> nat \<Rightarrow> (nat \<times> nat) list" where
  \<comment> \<open>the index pairs of the eight reads, in the order of the source\<close>
  "neighbour_cells W H x y =
    (let isLeftEdge = (x = 0);
         isRightEdge = (x = W - 1);
         isTopEdge = (y = 0);
         isBottomEdge = (y = H - 1);
         xL = (if isLeftEdge then W - 1 else x - 1);
         xR = (if isRightEdge then 0 else x + 1);
         yT = (if isTopEdge then H - 1 else y - 1);
         yB = (if isBottomEdge then 0 else y + 1)
     in [(xL, yT), (x, yT), (xR, yT), (xL, y), (xR, y), (xL, yB), (x, yB), (xR, yB)])"

definition LiveNeighbourCount :: "nat \<Rightarrow> nat \<Rightarrow> nat \<Rightarrow> nat \<Rightarrow> board \<Rightarrow> nat" where
  \<comment> \<open>\<^verbatim>\<open>count = 0\<close>, then \<^verbatim>\<open>count += g[a][b] == 1 ? 1 : 0\<close> for each of the eight reads\<close>
  "LiveNeighbourCount W H x y g =
    fold (\<lambda>(a, b) count. count + (if at H g a b = 1 then 1 else 0)) (neighbour_cells W H x y) 0"

subsection \<open>CalculateNextGeneration\<close>

definition update_cell :: "nat \<Rightarrow> nat \<Rightarrow> nat \<Rightarrow> nat \<Rightarrow> sim \<Rightarrow> sim" where
  \<comment> \<open>the body of the inner loop\<close>
  "update_cell W H x y s =
    (let neighbourCount = LiveNeighbourCount W H x y (grid s)
     in if at H (grid s) x y = 1 then
          (if neighbourCount \<noteq> 2 \<and> neighbourCount \<noteq> 3
           then DrawCell x y black (s\<lparr>gridCopy := put H (gridCopy s) x y 0\<rparr>)
           else DrawCell x y white (s\<lparr>gridCopy := put H (gridCopy s) x y 1\<rparr>))
        else
          (if neighbourCount = 3
           then DrawCell x y white (s\<lparr>gridCopy := put H (gridCopy s) x y 1\<rparr>)
           else DrawCell x y black (s\<lparr>gridCopy := put H (gridCopy s) x y 0\<rparr>)))"

definition update_all :: "nat \<Rightarrow> nat \<Rightarrow> sim \<Rightarrow> sim" where
  \<comment> \<open>the two nested loops, before the \<^verbatim>\<open>memcpy\<close>\<close>
  "update_all W H s = fold (\<lambda>x. fold (\<lambda>y. update_cell W H x y) [0..<H]) [0..<W] s"

definition commit :: "nat \<Rightarrow> nat \<Rightarrow> sim \<Rightarrow> sim" where
  \<comment> \<open>\<^verbatim>\<open>memcpy(g, gCopy, sizeof(g))\<close>; \<open>g\<close> is a reference to the array, so \<^verbatim>\<open>sizeof(g)\<close> is \<open>W * H\<close>\<close>
  "commit W H s = s\<lparr>grid := memcpy (grid s) (gridCopy s) (W * H)\<rparr>"

definition CalculateNextGeneration :: "nat \<Rightarrow> nat \<Rightarrow> sim \<Rightarrow> sim" where
  "CalculateNextGeneration W H s = commit W H (update_all W H s)"

subsection \<open>Vocabulary of the specification\<close>

text \<open>
  The specification names the two cell values; the source writes the literals 1 and 0.
\<close>

definition ALIVE :: cell where
  "ALIVE = 1"

definition DEAD :: cell where
  "DEAD = 0"

text \<open>
  The transition table of the specification, row by row. It says nothing about a byte that is
  neither \<open>ALIVE\<close> nor \<open>DEAD\<close>.
\<close>

definition rule :: "cell \<Rightarrow> nat \<Rightarrow> cell option" where
  "rule st n =
    (if st = ALIVE \<and> n < 2 then Some DEAD
     else if st = ALIVE \<and> (n = 2 \<or> n = 3) then Some ALIVE
     else if st = ALIVE \<and> n > 3 then Some DEAD
     else if st = DEAD \<and> n = 3 then Some ALIVE
     else if st = DEAD \<and> n \<noteq> 3 then Some DEAD
     else None)"

text \<open>
  The wraparound formula of the specification: \<open>(coord - 1 + N) mod N\<close> on the low side,
  computed over the integers, and \<open>(coord + 1) mod N\<close> on the high side.
\<close>

definition spec_low :: "nat \<Rightarrow> nat \<Rightarrow> nat" where
  "spec_low N c = nat ((int c - 1 + int N) mod int N)"

definition spec_high :: "nat \<Rightarrow> nat \<Rightarrow> nat" where
  "spec_high N c = (c + 1) mod N"

definition spec_neighbours :: "nat \<Rightarrow> nat \<Rightarrow> nat \<Rightarrow> nat \<Rightarrow> (nat \<times> nat) list" where
  "spec_neighbours W H x y =
    [(spec_low W x, spec_low H y), (x, spec_low H y), (spec_high W x, spec_low H y),
     (spec_low W x, y), (spec_high W x, y),
     (spec_low W x, spec_high H y), (x, spec_high H y), (spec_high W x, spec_high H y)]"

text \<open>The number \<open>n\<close> of the specification: how many of those eight cells are \<open>ALIVE\<close>.\<close>

definition spec_count :: "nat \<Rightarrow> nat \<Rightarrow> board \<Rightarrow> nat \<Rightarrow> nat \<Rightarrow> nat" where
  "spec_count W H g x y =
    length (filter (\<lambda>(a, b). at H g a b = ALIVE) (spec_neighbours W H x y))"

text \<open>
  The patterns of the oscillator test, for a centre cell \<open>(cx, cy)\<close>. The first array index
  \<open>x\<close> runs along the width (\<^verbatim>\<open>DrawCell\<close> paints cell \<open>x\<close> at pixel column \<open>x * cellSize\<close>),
  so the horizontal pattern is the centre with its two neighbours in \<open>x\<close>, and the vertical
  pattern is the centre with its two neighbours in \<open>y\<close>; neighbours wrap as in the
  specification's formula. \<open>tabulate W H f\<close> is the array whose cell \<open>(x, y)\<close> holds \<open>f x y\<close>.
\<close>

definition tabulate :: "nat \<Rightarrow> nat \<Rightarrow> (nat \<Rightarrow> nat \<Rightarrow> cell) \<Rightarrow> board" where
  "tabulate W H f = map (\<lambda>i. f (i div H) (i mod H)) [0..<W * H]"

definition blinker_h :: "nat \<Rightarrow> nat \<Rightarrow> nat \<Rightarrow> nat \<Rightarrow> board" where
  "blinker_h W H cx cy =
    tabulate W H (\<lambda>x y. if (x = spec_low W cx \<or> x = cx \<or> x = spec_high W cx) \<and> y = cy
                         then ALIVE else DEAD)"

definition blinker_v :: "nat \<Rightarrow> nat \<Rightarrow> nat \<Rightarrow> nat \<Rightarrow> board" where
  "blinker_v W H cx cy =
    tabulate W H (\<lambda>x y. if x = cx \<and> (y = spec_low H cy \<or> y = cy \<or> y = spec_high H cy)
                         then ALIVE else DEAD)"

subsection \<open>Notions used in the proofs\<close>

text \<open>The byte that the loop body stores into \<^verbatim>\<open>gCopy[x][y]\<close>, as a function of the array \<open>g\<close>.\<close>

definition written :: "nat \<Rightarrow> nat \<Rightarrow> board \<Rightarrow> nat \<Rightarrow> nat \<Rightarrow> cell" where
  "written W H g x y =
    (if at H g x y = 1
     then (if LiveNeighbourCount W H x y g \<noteq> 2 \<and> LiveNeighbourCount W H x y g \<noteq> 3 then 0 else 1)
     else (if LiveNeighbourCount W H x y g = 3 then 1 else 0))"

text \<open>The loop body run at a sequence of coordinates, one after the other.\<close>

definition run_cells :: "nat \<Rightarrow> nat \<Rightarrow> (nat \<times> nat) list \<Rightarrow> sim \<Rightarrow> sim" where
  "run_cells W H cs s = fold (\<lambda>(x, y). update_cell W H x y) cs s"

text \<open>
  How many of the three wrapped positions \<open>c - 1\<close>, \<open>c\<close>, \<open>c + 1\<close> on an axis of extent \<open>N\<close>
  satisfy \<open>A\<close>; and the three-cell window around \<open>c\<close>.
\<close>

definition hits :: "nat \<Rightarrow> (nat \<Rightarrow> bool) \<Rightarrow> nat \<Rightarrow> nat" where
  "hits N A c = of_bool (A (spec_low N c)) + of_bool (A c) + of_bool (A (spec_high N c))"

definition win :: "nat \<Rightarrow> nat \<Rightarrow> nat \<Rightarrow> bool" where
  "win N c x \<longleftrightarrow> x = spec_low N c \<or> x = c \<or> x = spec_high N c"

text \<open>The byte \<^verbatim>\<open>InitGrid\<close> stores at the \<open>k\<close>-th call of \<^verbatim>\<open>rand()\<close>.\<close>

definition init_value :: "nat \<Rightarrow> (nat \<Rightarrow> nat) \<Rightarrow> nat \<Rightarrow> cell" where
  "init_value P rnd k = (if rnd k mod 100 < P then 1 else 0)"

subsection \<open>Sample states\<close>

definition two_by_two :: sim where
  "two_by_two = \<lparr>grid = [0, 1, 1, 1], gridCopy = [5, 6, 7, 8], drawn = [], rand_calls = 0\<rparr>"

definition two_by_two_other :: sim where
  "two_by_two_other =
    \<lparr>grid = [0, 1, 1, 1], gridCopy = [0, 0, 9, 0], drawn = [(0, 0, 255)], rand_calls = 4\<rparr>"

definition three_lonely :: sim where
  "three_lonely =
    \<lparr>grid = [0, 0, 0, 0, 1, 0, 0, 0, 0], gridCopy = replicate 9 3, drawn = [], rand_calls = 0\<rparr>"

definition three_corner :: sim where
  "three_corner =
    \<lparr>grid = [1, 1, 0, 1, 0, 0, 0, 0, 0], gridCopy = replicate 9 3, drawn = [], rand_calls = 0\<rparr>"

definition three_dead :: sim where
  "three_dead = \<lparr>grid = replicate 9 DEAD, gridCopy = replicate 9 3, drawn = [], rand_calls = 0\<rparr>"

text \<open>
  A 5 by 5 grid with the cells \<open>(1, 2)\<close>, \<open>(2, 2)\<close>, \<open>(3, 2)\<close> alive. An array literal lists
  the cells with \<open>x = 0\<close> first, then those with \<open>x = 1\<close>, and so on.
\<close>

definition blinker5 :: sim where
  "blinker5 =
    \<lparr>grid = [0,0,0,0,0, 0,0,1,0,0, 0,0,1,0,0, 0,0,1,0,0, 0,0,0,0,0],
     gridCopy = replicate 25 7, drawn = [], rand_calls = 0\<rparr>"

text \<open>A sample sequence of \<^verbatim>\<open>rand()\<close> results: 5, 42, 79, 116, ...\<close>

definition sample_rand :: "nat \<Rightarrow> nat" where
  "sample_rand k = 37 * k + 5"

section \<open>Properties of the arrays and of the loops\<close>

subsection \<open>Index arithmetic\<close>

lemma idx_less: "x < W \<Longrightarrow> y < H \<Longrightarrow> x * H + y < W * (H::nat)"
proof -
  assume a: "x < W" "y < H"
  then have "x * H + y < x * H + H" by simp
  also have "\<dots> = (Suc x) * H" by simp
  also have "\<dots> \<le> W * H" using a(1) by (intro mult_le_mono1) simp
  finally show ?thesis .
qed

lemma idx_inj:
  assumes "y < H" "y' < H" "x * H + y = x' * H + (y'::nat)"
  shows "x = x' \<and> y = y'"
proof -
  have "(x * H + y) div H = x" "(x' * H + y') div H = x'"
    using assms(1,2) by simp_all
  with assms(3) have "x = x'" by simp
  with assms(3) show ?thesis by simp
qed

lemma idx_split: "0 < H \<Longrightarrow> i < W * H \<Longrightarrow> i div H < W \<and> i mod H < H \<and> i = (i div H) * H + i mod (H::nat)"
  by (simp add: less_mult_imp_div_less)

lemma board_eqI:
  assumes "length a = W * H" "length b = W * H"
    and "\<And>x y. x < W \<Longrightarrow> y < H \<Longrightarrow> at H a x y = at H b x y"
  shows "a = b"
proof (rule nth_equalityI)
  show "length a = length b" using assms(1,2) by simp
next
  fix i assume "i < length a"
  then have i: "i < W * H" using assms(1) by simp
  then have "0 < H" by (cases H) simp_all
  from idx_split[OF this i] assms(3)[of "i div H" "i mod H"]
  show "a ! i = b ! i" by (simp add: at_def)
qed

lemma at_put_same: "x * H + y < length g \<Longrightarrow> at H (put H g x y v) x y = v"
  by (simp add: at_def put_def)

lemma at_put_other:
  "y < H \<Longrightarrow> y' < H \<Longrightarrow> (x, y) \<noteq> (x', y') \<Longrightarrow> at H (put H g x y v) x' y' = at H g x' y'"
proof -
  assume a: "y < H" "y' < H" "(x, y) \<noteq> (x', y')"
  have "x * H + y \<noteq> x' * H + y'"
    using idx_inj[OF a(1,2)] a(3) by blast
  then show ?thesis by (simp add: at_def put_def)
qed

lemma length_put [simp]: "length (put H g x y v) = length g"
  by (simp add: put_def)

lemma at_in_set: "length g = W * H \<Longrightarrow> x < W \<Longrightarrow> y < H \<Longrightarrow> at H g x y \<in> set g"
  by (simp add: at_def idx_less)

lemma at_replicate: "x < W \<Longrightarrow> y < H \<Longrightarrow> at H (replicate (W * H) v) x y = v"
  by (simp add: at_def idx_less)

subsection \<open>The loop body and the loops\<close>

lemma grid_update_cell [simp]: "grid (update_cell W H x y s) = grid s"
  by (simp add: update_cell_def DrawCell_def Let_def)

lemma rand_calls_update_cell [simp]: "rand_calls (update_cell W H x y s) = rand_calls s"
  by (simp add: update_cell_def DrawCell_def Let_def)

lemma gridCopy_update_cell:
  "gridCopy (update_cell W H x y s) = put H (gridCopy s) x y (written W H (grid s) x y)"
  by (simp add: update_cell_def DrawCell_def Let_def written_def)

lemma grid_run_cells [simp]: "grid (run_cells W H cs s) = grid s"
  unfolding run_cells_def by (induction cs arbitrary: s) (auto)

lemma length_gridCopy_run_cells [simp]:
  "length (gridCopy (run_cells W H cs s)) = length (gridCopy s)"
  unfolding run_cells_def by (induction cs arbitrary: s) (auto simp: gridCopy_update_cell)

lemma gridCopy_run_cells:
  assumes "\<forall>(a, b) \<in> set cs. a * H + b < length (gridCopy s) \<and> b < H" "y < H"
  shows "at H (gridCopy (run_cells W H cs s)) x y =
         (if (x, y) \<in> set cs then written W H (grid s) x y else at H (gridCopy s) x y)"
  using assms(1)
proof (induction cs arbitrary: s)
  case Nil
  then show ?case by (simp add: run_cells_def)
next
  case (Cons c cs)
  obtain a b where c: "c = (a, b)" by (cases c)
  let ?s = "update_cell W H a b s"
  have step: "run_cells W H (c # cs) s = run_cells W H cs ?s"
    by (simp add: run_cells_def c)
  have pre: "\<forall>(a, b) \<in> set cs. a * H + b < length (gridCopy ?s) \<and> b < H"
    using Cons.prems by (auto simp: gridCopy_update_cell)
  have ab: "a * H + b < length (gridCopy s)" "b < H"
    using Cons.prems by (auto simp: c)
  have "at H (gridCopy (run_cells W H cs ?s)) x y =
        (if (x, y) \<in> set (c # cs) then written W H (grid s) x y else at H (gridCopy s) x y)"
  proof (cases "(x, y) \<in> set cs")
    case True
    then show ?thesis using Cons.IH[OF pre] by simp
  next
    case False
    show ?thesis
    proof (cases "(x, y) = (a, b)")
      case True
      then show ?thesis using Cons.IH[OF pre] False ab
        by (simp add: c gridCopy_update_cell at_put_same)
    next
      case ne: False
      then have "(a, b) \<noteq> (x, y)" by auto
      from at_put_other[OF ab(2) assms(2) this]
      show ?thesis using Cons.IH[OF pre] False ne
        by (auto simp: c gridCopy_update_cell)
    qed
  qed
  then show ?case by (simp only: step)
qed

lemma fold_nested:
  "fold (\<lambda>x. fold (\<lambda>y. f x y) ys) xs s = fold (\<lambda>(x, y). f x y) (List.product xs ys) s"
  by (induction xs arbitrary: s) (simp_all add: fold_map comp_def)

lemma update_all_run: "update_all W H s = run_cells W H (List.product [0..<W] [0..<H]) s"
  by (simp add: update_all_def run_cells_def fold_nested)

lemma grid_update_all [simp]: "grid (update_all W H s) = grid s"
  by (simp add: update_all_run)

lemma length_gridCopy_update_all [simp]:
  "length (gridCopy (update_all W H s)) = length (gridCopy s)"
  by (simp add: update_all_run)

lemma gridCopy_update_all:
  assumes "length (gridCopy s) = W * H" "x < W" "y < H"
  shows "at H (gridCopy (update_all W H s)) x y = written W H (grid s) x y"
proof -
  have "\<forall>(a, b) \<in> set (List.product [0..<W] [0..<H]). a * H + b < length (gridCopy s) \<and> b < H"
    using assms(1) by (auto simp: idx_less)
  from gridCopy_run_cells[OF this assms(3), of W x] assms(2,3)
  show ?thesis by (simp add: update_all_run)
qed

lemma memcpy_full: "length src = n \<Longrightarrow> length dst = n \<Longrightarrow> memcpy dst src n = src"
  by (simp add: memcpy_def)

lemma grid_commit: "sized W H s \<Longrightarrow> grid (commit W H s) = gridCopy s"
  by (simp add: commit_def sized_def memcpy_full)

lemma gridCopy_commit [simp]: "gridCopy (commit W H s) = gridCopy s"
  by (simp add: commit_def)

lemma sized_update_all: "sized W H s \<Longrightarrow> sized W H (update_all W H s)"
  by (simp add: sized_def)

lemma grid_step: "sized W H s \<Longrightarrow>
  grid (CalculateNextGeneration W H s) = gridCopy (update_all W H s)"
  by (simp add: CalculateNextGeneration_def grid_commit sized_update_all)

lemma gridCopy_step:
  "gridCopy (CalculateNextGeneration W H s) = gridCopy (update_all W H s)"
  by (simp add: CalculateNextGeneration_def)

lemma sized_step: "sized W H s \<Longrightarrow> sized W H (CalculateNextGeneration W H s)"
  using grid_step[of W H s] by (simp add: sized_def gridCopy_step)

lemma at_step:
  "sized W H s \<Longrightarrow> x < W \<Longrightarrow> y < H \<Longrightarrow>
   at H (grid (CalculateNextGeneration W H s)) x y = written W H (grid s) x y"
  by (simp add: grid_step gridCopy_update_all sized_def)

subsection \<open>Neighbour coordinates and the count\<close>

lemma spec_low_eq: "c < N \<Longrightarrow> spec_low N c = (if c = 0 then N - 1 else c - 1)"
proof (cases "c = 0")
  case True
  assume "c < N"
  then have "(int N - 1) mod int N = int N - 1"
    by (intro mod_pos_pos_trivial) simp_all
  moreover have "int c - 1 + int N = int N - 1"
    using True by simp
  ultimately have "nat ((int c - 1 + int N) mod int N) = N - 1"
    by (simp only: nat_diff_distrib nat_int)
  then show ?thesis using True by (simp only: spec_low_def simp_thms if_True)
next
  case False
  assume "c < N"
  have "(int c - 1 + int N) mod int N = (int c - 1) mod int N"
    by (rule mod_add_self2)
  also have "\<dots> = int c - 1"
    using False \<open>c < N\<close> by (intro mod_pos_pos_trivial) simp_all
  finally show ?thesis using False by (simp add: spec_low_def)
qed

lemma spec_high_eq: "c < N \<Longrightarrow> spec_high N c = (if c = N - 1 then 0 else c + 1)"
  by (auto simp: spec_high_def)

lemma neighbour_cells_spec:
  "x < W \<Longrightarrow> y < H \<Longrightarrow> neighbour_cells W H x y = spec_neighbours W H x y"
  by (simp add: neighbour_cells_def spec_neighbours_def spec_low_eq spec_high_eq Let_def)

lemma count_filter:
  "fold (\<lambda>(a, b) count. count + (if P a b then 1 else 0)) cs (n::nat) = n + length (filter (\<lambda>(a, b). P a b) cs)"
  by (induction cs arbitrary: n) auto

lemma LiveNeighbourCount_filter:
  "LiveNeighbourCount W H x y g = length (filter (\<lambda>(a, b). at H g a b = 1) (neighbour_cells W H x y))"
  by (simp add: LiveNeighbourCount_def count_filter)

lemma LiveNeighbourCount_spec:
  "x < W \<Longrightarrow> y < H \<Longrightarrow> LiveNeighbourCount W H x y g = spec_count W H g x y"
  by (simp add: LiveNeighbourCount_filter neighbour_cells_spec spec_count_def ALIVE_def)

lemma written_rule:
  "at H g x y = ALIVE \<or> at H g x y = DEAD \<Longrightarrow>
   rule (at H g x y) (LiveNeighbourCount W H x y g) = Some (written W H g x y)"
  by (auto simp: rule_def written_def ALIVE_def DEAD_def)

lemma neighbour_cells_range:
  assumes "x < W" "y < H" "(a, b) \<in> set (neighbour_cells W H x y)"
  shows "a < W \<and> b < H"
  using assms by (auto simp: neighbour_cells_def Let_def split: if_splits)

lemma count_all_dead:
  assumes "x < W" "y < H"
  shows "LiveNeighbourCount W H x y (replicate (W * H) DEAD) = 0"
proof -
  have "\<forall>(a, b) \<in> set (neighbour_cells W H x y). at H (replicate (W * H) DEAD) a b \<noteq> 1"
    using neighbour_cells_range[OF assms] by (auto simp: at_replicate DEAD_def)
  then show ?thesis
    unfolding LiveNeighbourCount_filter by (auto simp: filter_empty_conv)
qed

lemma step_all_dead:
  assumes "length (gridCopy s) = W * H" "grid s = replicate (W * H) DEAD"
  shows "grid (CalculateNextGeneration W H s) = replicate (W * H) DEAD"
proof (rule board_eqI[of _ W H])
  have sz: "sized W H s" using assms by (simp add: sized_def)
  show "length (grid (CalculateNextGeneration W H s)) = W * H"
    using sized_step[OF sz] by (simp add: sized_def)
  show "length (replicate (W * H) DEAD) = W * H" by simp
  fix x y assume xy: "x < W" "y < H"
  then show "at H (grid (CalculateNextGeneration W H s)) x y = at H (replicate (W * H) DEAD) x y"
    using sz assms(2) count_all_dead[OF xy] by (simp add: at_step written_def at_replicate DEAD_def)
qed

lemma steps_all_dead:
  assumes "length (gridCopy s) = W * H" "grid s = replicate (W * H) DEAD"
  shows "grid ((CalculateNextGeneration W H ^^ n) s) = replicate (W * H) DEAD \<and>
         length (gridCopy ((CalculateNextGeneration W H ^^ n) s)) = W * H"
proof (induction n)
  case 0
  then show ?case using assms by simp
next
  case (Suc n)
  then show ?case
    using step_all_dead[of "(CalculateNextGeneration W H ^^ n) s" W H]
    by (simp add: gridCopy_step)
qed

subsection \<open>Arrays given cell by cell; the wrapped window\<close>

lemma length_tabulate [simp]: "length (tabulate W H f) = W * H"
  by (simp add: tabulate_def)

lemma at_tabulate: "x < W \<Longrightarrow> y < H \<Longrightarrow> at H (tabulate W H f) x y = f x y"
  by (simp add: tabulate_def at_def idx_less)

lemma count_product:
  assumes "x < W" "y < H"
    and g: "\<And>a b. a < W \<Longrightarrow> b < H \<Longrightarrow> at H g a b = 1 \<longleftrightarrow> A a \<and> B b"
  shows "LiveNeighbourCount W H x y g = hits W A x * hits H B y - of_bool (A x \<and> B y)"
proof -
  have lo: "spec_low W x < W" "spec_low H y < H" using assms(1,2) by (auto simp: spec_low_eq)
  have hi: "spec_high W x < W" "spec_high H y < H" using assms(1,2) by (auto simp: spec_high_eq)
  show ?thesis
    unfolding LiveNeighbourCount_filter neighbour_cells_spec[OF assms(1,2)] spec_neighbours_def hits_def
    using lo hi assms(1,2) by (simp add: g)
qed

lemma spec_low_less: "c < N \<Longrightarrow> spec_low N c < N"
  by (auto simp: spec_low_eq)

lemma spec_high_less: "c < N \<Longrightarrow> spec_high N c < N"
  by (simp add: spec_high_def)

lemma spec_low_eq_iff: "x < N \<Longrightarrow> z < N \<Longrightarrow> spec_low N x = z \<longleftrightarrow> x = spec_high N z"
  by (auto simp: spec_low_eq spec_high_eq)

lemma spec_high_eq_iff: "x < N \<Longrightarrow> z < N \<Longrightarrow> spec_high N x = z \<longleftrightarrow> x = spec_low N z"
  by (auto simp: spec_low_eq spec_high_eq)

lemma five_apart:
  assumes "5 \<le> N" "c < N"
  shows "distinct [spec_low N (spec_low N c), spec_low N c, c, spec_high N c, spec_high N (spec_high N c)]"
  using assms by (simp add: spec_low_eq spec_high_eq spec_low_less spec_high_less) arith


lemma spec_high_low: "c < N \<Longrightarrow> spec_high N (spec_low N c) = c"
  using spec_high_eq_iff[of "spec_low N c" N c] by (simp add: spec_low_less)

lemma spec_low_high: "c < N \<Longrightarrow> spec_low N (spec_high N c) = c"
  using spec_low_eq_iff[of "spec_high N c" N c] by (simp add: spec_high_less)

lemma win_low:
  assumes "c < N" "x < N"
  shows "win N c (spec_low N x) \<longleftrightarrow> x = c \<or> x = spec_high N c \<or> x = spec_high N (spec_high N c)"
  using assms
  by (auto simp: win_def spec_low_eq_iff spec_low_less spec_high_less spec_high_low spec_low_high)

lemma win_high:
  assumes "c < N" "x < N"
  shows "win N c (spec_high N x) \<longleftrightarrow> x = spec_low N (spec_low N c) \<or> x = spec_low N c \<or> x = c"
  using assms
  by (auto simp: win_def spec_high_eq_iff spec_low_less spec_high_less spec_high_low spec_low_high)

lemma hits_win:
  assumes "5 \<le> N" "c < N" "x < N"
  shows "hits N (win N c) x =
    (if x = c then 3 else if x = spec_low N c \<or> x = spec_high N c then 2
     else if x = spec_low N (spec_low N c) \<or> x = spec_high N (spec_high N c) then 1 else 0)"
  unfolding hits_def win_low[OF assms(2,3)] win_high[OF assms(2,3)]
  using five_apart[OF assms(1,2)]
  by (auto simp: win_def)

lemma hits_point:
  assumes "3 \<le> N" "c < N" "x < N"
  shows "hits N (\<lambda>b. b = c) x = of_bool (win N c x)"
proof -
  have "spec_low N c \<noteq> c" "spec_high N c \<noteq> c" "spec_low N c \<noteq> spec_high N c"
    using assms(1,2) by (auto simp: spec_low_eq spec_high_eq)
  then show ?thesis
    unfolding hits_def win_def using assms(2,3)
    by (auto simp: spec_low_eq_iff spec_high_eq_iff)
qed


lemma written_blinker_h:
  assumes "5 \<le> W" "5 \<le> H" "cx < W" "cy < H" "x < W" "y < H"
  shows "written W H (blinker_h W H cx cy) x y = (if x = cx \<and> win H cy y then ALIVE else DEAD)"
proof -
  let ?g = "blinker_h W H cx cy"
  have g: "\<And>a b. a < W \<Longrightarrow> b < H \<Longrightarrow> at H ?g a b = 1 \<longleftrightarrow> win W cx a \<and> b = cy"
    by (simp add: blinker_h_def at_tabulate win_def ALIVE_def DEAD_def)
  have hp: "hits H (\<lambda>b. b = cy) y = of_bool (win H cy y)"
    using assms by (intro hits_point) simp_all
  have n: "LiveNeighbourCount W H x y ?g =
      hits W (win W cx) x * of_bool (win H cy y) - of_bool (win W cx x \<and> y = cy)"
    using count_product[of x W y H ?g "win W cx" "\<lambda>b. b = cy", OF assms(5,6) g] hp by simp
  have d: "spec_low W cx \<noteq> cx" "spec_high W cx \<noteq> cx"
    using five_apart[OF assms(1,3)] by auto
  show ?thesis
    unfolding written_def n g[OF assms(5,6)] hits_win[OF assms(1,3,5)]
    using d by (auto simp: ALIVE_def DEAD_def win_def)
qed

lemma written_blinker_v:
  assumes "5 \<le> W" "5 \<le> H" "cx < W" "cy < H" "x < W" "y < H"
  shows "written W H (blinker_v W H cx cy) x y = (if win W cx x \<and> y = cy then ALIVE else DEAD)"
proof -
  let ?g = "blinker_v W H cx cy"
  have g: "\<And>a b. a < W \<Longrightarrow> b < H \<Longrightarrow> at H ?g a b = 1 \<longleftrightarrow> a = cx \<and> win H cy b"
    by (simp add: blinker_v_def at_tabulate win_def ALIVE_def DEAD_def)
  have hp: "hits W (\<lambda>a. a = cx) x = of_bool (win W cx x)"
    using assms by (intro hits_point) simp_all
  have n: "LiveNeighbourCount W H x y ?g =
      of_bool (win W cx x) * hits H (win H cy) y - of_bool (x = cx \<and> win H cy y)"
    using count_product[of x W y H ?g "\<lambda>a. a = cx" "win H cy", OF assms(5,6) g] hp by simp
  have d: "spec_low H cy \<noteq> cy" "spec_high H cy \<noteq> cy"
    using five_apart[OF assms(2,4)] by auto
  show ?thesis
    unfolding written_def n g[OF assms(5,6)] hits_win[OF assms(2,4,6)]
    using d by (auto simp: ALIVE_def DEAD_def win_def)
qed

lemma step_blinker_h:
  assumes "5 \<le> W" "5 \<le> H" "cx < W" "cy < H" "sized W H s" "grid s = blinker_h W H cx cy"
  shows "grid (CalculateNextGeneration W H s) = blinker_v W H cx cy"
proof (rule board_eqI[of _ W H])
  show "length (grid (CalculateNextGeneration W H s)) = W * H"
    using sized_step[OF assms(5)] by (simp add: sized_def)
  show "length (blinker_v W H cx cy) = W * H" by (simp add: blinker_v_def)
  fix x y assume xy: "x < W" "y < H"
  show "at H (grid (CalculateNextGeneration W H s)) x y = at H (blinker_v W H cx cy) x y"
    using written_blinker_h[OF assms(1-4) xy] xy
    by (simp add: at_step[OF assms(5)] assms(6) blinker_v_def at_tabulate win_def)
qed

lemma step_blinker_v:
  assumes "5 \<le> W" "5 \<le> H" "cx < W" "cy < H" "sized W H s" "grid s = blinker_v W H cx cy"
  shows "grid (CalculateNextGeneration W H s) = blinker_h W H cx cy"
proof (rule board_eqI[of _ W H])
  show "length (grid (CalculateNextGeneration W H s)) = W * H"
    using sized_step[OF assms(5)] by (simp add: sized_def)
  show "length (blinker_h W H cx cy) = W * H" by (simp add: blinker_h_def)
  fix x y assume xy: "x < W" "y < H"
  show "at H (grid (CalculateNextGeneration W H s)) x y = at H (blinker_h W H cx cy) x y"
    using written_blinker_v[OF assms(1-4) xy] xy
    by (simp add: at_step[OF assms(5)] assms(6) blinker_h_def at_tabulate win_def)
qed

subsection \<open>The loops of InitGrid\<close>

lemma grid_init_cell:
  "grid (init_cell H P rnd i j s) = put H (grid s) i j (init_value P rnd (rand_calls s))"
  by (simp add: init_cell_def DrawCell_def Let_def init_value_def)

lemma gridCopy_init_cell [simp]: "gridCopy (init_cell H P rnd i j s) = gridCopy s"
  by (simp add: init_cell_def DrawCell_def Let_def)

lemma rand_calls_init_cell [simp]: "rand_calls (init_cell H P rnd i j s) = rand_calls s + 1"
  by (simp add: init_cell_def DrawCell_def Let_def)

lemma init_row:
  fixes P :: nat and rnd :: "nat \<Rightarrow> nat"
  assumes "length (grid s) = W * H" "i < W" "n \<le> H"
  defines "s' \<equiv> fold (\<lambda>j. init_cell H P rnd i j) [0..<n] s"
  shows "length (grid s') = W * H \<and> rand_calls s' = rand_calls s + n \<and> gridCopy s' = gridCopy s \<and>
         (\<forall>a b. b < H \<longrightarrow> at H (grid s') a b =
            (if a = i \<and> b < n then init_value P rnd (rand_calls s + b) else at H (grid s) a b))"
  using assms(3) unfolding s'_def
proof (induction n)
  case 0
  then show ?case using assms(1) by simp
next
  case (Suc n)
  let ?t = "fold (\<lambda>j. init_cell H P rnd i j) [0..<n] s"
  have n: "n < H" "n \<le> H" using Suc.prems by simp_all
  note IH = Suc.IH[OF n(2)]
  have i: "i * H + n < length (grid ?t)"
    using IH assms(2) n(1) by (simp add: idx_less)
  have at': "b < H \<Longrightarrow> at H (put H (grid ?t) i n v) a b =
      (if a = i \<and> b = n then v else at H (grid ?t) a b)" for v a b
    using i n(1) at_put_other[of n H b i a "grid ?t" v] by (auto simp: at_put_same)
  show ?case
    using IH by (auto simp: grid_init_cell at' less_Suc_eq)
qed

lemma init_rows:
  fixes P :: nat and rnd :: "nat \<Rightarrow> nat"
  assumes "length (grid s) = W * H" "m \<le> W"
  defines "s' \<equiv> fold (\<lambda>i. fold (\<lambda>j. init_cell H P rnd i j) [0..<H]) [0..<m] s"
  shows "length (grid s') = W * H \<and> rand_calls s' = rand_calls s + m * H \<and> gridCopy s' = gridCopy s \<and>
         (\<forall>a b. b < H \<longrightarrow> at H (grid s') a b =
            (if a < m then init_value P rnd (rand_calls s + a * H + b) else at H (grid s) a b))"
  using assms(2) unfolding s'_def
proof (induction m)
  case 0
  then show ?case using assms(1) by simp
next
  case (Suc m)
  let ?t = "fold (\<lambda>i. fold (\<lambda>j. init_cell H P rnd i j) [0..<H]) [0..<m] s"
  have m: "m < W" "m \<le> W" using Suc.prems by simp_all
  note IH = Suc.IH[OF m(2)]
  have len: "length (grid ?t) = W * H" using IH by simp
  note row = init_row[OF len m(1) order_refl, of P rnd]
  show ?case
    using IH row by (auto simp: less_Suc_eq add.assoc)
qed

lemma InitGrid_cells:
  assumes "length (grid s) = W * H"
  shows "length (grid (InitGrid W H P rnd s)) = W * H"
    and "gridCopy (InitGrid W H P rnd s) = gridCopy s"
    and "i < W \<Longrightarrow> j < H \<Longrightarrow>
         at H (grid (InitGrid W H P rnd s)) i j = init_value P rnd (rand_calls s + i * H + j)"
  using init_rows[OF assms order_refl, of P rnd] by (simp_all add: InitGrid_def)

lemma in_set_board:
  assumes "length g = W * H" "c \<in> set g"
  shows "\<exists>x y. x < W \<and> y < H \<and> c = at H g x y"
proof -
  from assms(2) obtain i where i: "i < length g" "c = g ! i"
    by (auto simp: in_set_conv_nth)
  then have iw: "i < W * H" using assms(1) by simp
  then have "0 < H" by (cases H) simp_all
  from idx_split[OF this iw] i(2) show ?thesis
    unfolding at_def by metis
qed


lemma init_value_cases: "init_value P rnd k = 0 \<or> init_value P rnd k = 1"
  by (simp add: init_value_def)

lemma written_cases: "written W H g x y = 0 \<or> written W H g x y = 1"
  by (simp add: written_def)

lemma InitGrid_two_valued:
  assumes "length (grid s) = W * H" "c \<in> set (grid (InitGrid W H P rnd s))"
  shows "c = 0 \<or> c = 1"
proof -
  from in_set_board[OF InitGrid_cells(1)[OF assms(1)] assms(2)]
  obtain x y where "x < W" "y < H" "c = at H (grid (InitGrid W H P rnd s)) x y" by blast
  then show ?thesis
    using InitGrid_cells(3)[OF assms(1), of x y P rnd] init_value_cases by simp
qed

lemma step_two_valued:
  assumes "sized W H s" "c \<in> set (grid (CalculateNextGeneration W H s))"
  shows "c = 0 \<or> c = 1"
proof -
  have "length (grid (CalculateNextGeneration W H s)) = W * H"
    using sized_step[OF assms(1)] by (simp add: sized_def)
  from in_set_board[OF this assms(2)]
  obtain x y where "x < W" "y < H" "c = at H (grid (CalculateNextGeneration W H s)) x y" by blast
  then show ?thesis
    using at_step[OF assms(1), of x y] written_cases by simp
qed

lemma sized_InitGrid: "sized W H s \<Longrightarrow> sized W H (InitGrid W H P rnd s)"
  by (simp add: sized_def InitGrid_cells)

lemma sized_steps: "sized W H s \<Longrightarrow> sized W H ((CalculateNextGeneration W H ^^ n) s)"
  by (induction n) (simp_all add: sized_step)

section \<open>The claims of the specification\<close>

text \<open>
  C1. For a grid whose cells are all \<open>ALIVE\<close> or \<open>DEAD\<close> and a cell \<open>(x, y)\<close> inside the
  extents, one generation step stores as the cell's next state exactly the value the rule
  table gives for the cell's current state and the number of \<open>ALIVE\<close> cells among its eight
  wraparound neighbours, both read from the array as it was before the step: this is the byte
  the loops leave in the working array and the byte the current array holds after the step. The byte the loop body stores for
  \<open>(x, y)\<close> is the same after any sequence \<open>cs\<close> of earlier loop-body runs as without them,
  so no cell's computation sees a next-state value already written in the same step.
\<close>

theorem step_applies_rule:
  assumes "sized W H s" and "\<forall>c \<in> set (grid s). c = ALIVE \<or> c = DEAD" and "x < W" and "y < H"
  shows "Some (at H (gridCopy (update_all W H s)) x y) =
           rule (at H (grid s) x y) (spec_count W H (grid s) x y) \<and>
         Some (at H (grid (CalculateNextGeneration W H s)) x y) =
           rule (at H (grid s) x y) (spec_count W H (grid s) x y) \<and>
         at H (gridCopy (update_cell W H x y (run_cells W H cs s))) x y =
           at H (gridCopy (update_cell W H x y s)) x y"
proof -
  have len: "length (grid s) = W * H" "length (gridCopy s) = W * H"
    using assms(1) by (simp_all add: sized_def)
  have "at H (grid s) x y \<in> set (grid s)"
    using len(1) assms(3,4) by (rule at_in_set)
  then have "at H (grid s) x y = ALIVE \<or> at H (grid s) x y = DEAD"
    using assms(2) by blast
  then have "rule (at H (grid s) x y) (LiveNeighbourCount W H x y (grid s)) =
      Some (written W H (grid s) x y)"
    by (rule written_rule)
  then have r: "rule (at H (grid s) x y) (spec_count W H (grid s) x y) =
      Some (written W H (grid s) x y)"
    using assms(3,4) by (simp add: LiveNeighbourCount_spec)
  have i: "x * H + y < W * H" using assms(3,4) by (rule idx_less)
  have a: "at H (gridCopy (update_all W H s)) x y = written W H (grid s) x y"
    using len(2) assms(3,4) by (rule gridCopy_update_all)
  have b: "at H (grid (CalculateNextGeneration W H s)) x y = written W H (grid s) x y"
    using assms(1,3,4) by (rule at_step)
  have c: "at H (gridCopy (update_cell W H x y (run_cells W H cs s))) x y =
           at H (gridCopy (update_cell W H x y s)) x y"
    using i len(2) by (simp add: gridCopy_update_cell at_put_same)
  show ?thesis using r a b c by simp
qed

theorem step_applies_rule_witness:
  "sized 3 3 three_corner \<and> set (grid three_corner) \<subseteq> {ALIVE, DEAD} \<and> (1::nat) < 3 \<and>
   at 3 (grid three_corner) 1 1 = DEAD \<and> spec_count 3 3 (grid three_corner) 1 1 = 3 \<and>
   Some (at 3 (grid (CalculateNextGeneration 3 3 three_corner)) 1 1) =
     rule (at 3 (grid three_corner) 1 1) (spec_count 3 3 (grid three_corner) 1 1) \<and>
   at 3 (grid (CalculateNextGeneration 3 3 three_corner)) 1 1 = ALIVE"
proof -
  have h: "sized 3 3 three_corner" "\<forall>c \<in> set (grid three_corner). c = ALIVE \<or> c = DEAD"
      "(1::nat) < 3"
    by (simp_all add: sized_def three_corner_def ALIVE_def DEAD_def)
  have v: "at 3 (grid (CalculateNextGeneration 3 3 three_corner)) 1 1 = ALIVE"
      "set (grid three_corner) \<subseteq> {ALIVE, DEAD}"
      "at 3 (grid three_corner) 1 1 = DEAD" "spec_count 3 3 (grid three_corner) 1 1 = 3"
    by code_simp+
  show ?thesis using h(1,3) v step_applies_rule[OF h(1) h(2) h(3) h(3)] by simp
qed

text \<open>
  C2. For a coordinate \<open>(x, y)\<close> inside the extents, the eight index pairs that
  \<^verbatim>\<open>LiveNeighbourCount\<close> reads are exactly the eight pairs of the wraparound formula of the
  specification (\<open>(coord - 1 + N) mod N\<close> on the low side, \<open>(coord + 1) mod N\<close> on the high
  side), and the count is the number of those pairs whose cell is \<open>ALIVE\<close>. On a 3 by 3 grid the
  pairs read for \<open>(0, 0)\<close> include \<open>(2, 2)\<close>, \<open>(2, 0)\<close> and \<open>(0, 2)\<close>.
\<close>

theorem neighbours_follow_wraparound_formula:
  "(x < W \<and> y < H \<longrightarrow>
      neighbour_cells W H x y = spec_neighbours W H x y \<and>
      LiveNeighbourCount W H x y g = spec_count W H g x y) \<and>
   {(2, 2), (2, 0), (0, 2)} \<subseteq> set (neighbour_cells 3 3 0 0)"
proof -
  have "{(2, 2), (2, 0), (0, 2)} \<subseteq> set (neighbour_cells 3 3 0 0)"
    by (simp add: neighbour_cells_def)
  then show ?thesis
    by (simp add: LiveNeighbourCount_spec neighbour_cells_spec)
qed

theorem neighbours_follow_wraparound_formula_witness:
  "(0::nat) < 3 \<and>
   neighbour_cells 3 3 0 0 = spec_neighbours 3 3 0 0 \<and>
   spec_neighbours 3 3 0 0 = [(2, 2), (0, 2), (1, 2), (2, 0), (1, 0), (2, 1), (0, 1), (1, 1)] \<and>
   LiveNeighbourCount 3 3 0 0 [0, 0, 1, 0, 0, 0, 1, 0, 1] = 3"
proof -
  have v: "spec_neighbours 3 3 0 0 = [(2, 2), (0, 2), (1, 2), (2, 0), (1, 0), (2, 1), (0, 1), (1, 1)]"
    by code_simp
  have n: "LiveNeighbourCount 3 3 0 0 [0, 0, 1, 0, 0, 0, 1, 0, 1] = 3"
    by code_simp
  show ?thesis
    using v n neighbours_follow_wraparound_formula[of 0 3 0 3 "[0, 0, 1, 0, 0, 0, 1, 0, 1]"]
    by simp
qed



text \<open>
  C4. Two states whose current arrays are equal have equal current arrays, and equal working
  arrays, after one generation step each, whatever their working arrays, draw records and
  \<^verbatim>\<open>rand\<close> counters were: the step is a function of the starting current array alone.
\<close>

theorem step_deterministic:
  assumes "sized W H s1" and "sized W H s2" and "grid s1 = grid s2"
  shows "grid (CalculateNextGeneration W H s1) = grid (CalculateNextGeneration W H s2) \<and>
         gridCopy (CalculateNextGeneration W H s1) = gridCopy (CalculateNextGeneration W H s2)"
proof -
  have "grid (CalculateNextGeneration W H s1) = grid (CalculateNextGeneration W H s2)"
  proof (rule board_eqI[of _ W H])
    show "length (grid (CalculateNextGeneration W H s1)) = W * H"
      using sized_step[OF assms(1)] by (simp add: sized_def)
    show "length (grid (CalculateNextGeneration W H s2)) = W * H"
      using sized_step[OF assms(2)] by (simp add: sized_def)
    fix x y assume "x < W" "y < H"
    then show "at H (grid (CalculateNextGeneration W H s1)) x y =
               at H (grid (CalculateNextGeneration W H s2)) x y"
      using assms by (simp add: at_step)
  qed
  then show ?thesis
    using assms(1,2) by (simp add: grid_step gridCopy_step)
qed

theorem step_deterministic_witness:
  "sized 2 2 two_by_two \<and> sized 2 2 two_by_two_other \<and> grid two_by_two = grid two_by_two_other \<and>
   gridCopy two_by_two \<noteq> gridCopy two_by_two_other \<and>
   grid (CalculateNextGeneration 2 2 two_by_two) = grid (CalculateNextGeneration 2 2 two_by_two_other)"
proof -
  have h: "sized 2 2 two_by_two" "sized 2 2 two_by_two_other" "grid two_by_two = grid two_by_two_other"
    by (simp_all add: sized_def two_by_two_def two_by_two_other_def)
  have d: "gridCopy two_by_two \<noteq> gridCopy two_by_two_other"
    by (simp add: two_by_two_def two_by_two_other_def)
  show ?thesis using h d step_deterministic[OF h] by simp
qed

text \<open>
  C5. On a grid of extents at least 5 by 5 whose current array is the horizontal three-cell
  blinker around \<open>(cx, cy)\<close> with every other cell \<open>DEAD\<close>, one generation step yields the
  vertical three-cell pattern around the same centre, and a second step yields the horizontal
  pattern again.
\<close>

theorem blinker_period_2:
  assumes "5 \<le> W" and "5 \<le> H" and "cx < W" and "cy < H"
    and "sized W H s" and "grid s = blinker_h W H cx cy"
  shows "grid (CalculateNextGeneration W H s) = blinker_v W H cx cy \<and>
         grid (CalculateNextGeneration W H (CalculateNextGeneration W H s)) = blinker_h W H cx cy"
proof -
  have one: "grid (CalculateNextGeneration W H s) = blinker_v W H cx cy"
    using assms by (rule step_blinker_h)
  have "sized W H (CalculateNextGeneration W H s)"
    using assms(5) by (rule sized_step)
  from step_blinker_v[OF assms(1-4) this one] one show ?thesis by simp
qed

theorem blinker_period_2_witness:
  "(5::nat) \<le> 5 \<and> (2::nat) < 5 \<and> sized 5 5 blinker5 \<and> grid blinker5 = blinker_h 5 5 2 2 \<and>
   grid (CalculateNextGeneration 5 5 blinker5) = blinker_v 5 5 2 2 \<and>
   blinker_v 5 5 2 2 = [0,0,0,0,0, 0,0,0,0,0, 0,1,1,1,0, 0,0,0,0,0, 0,0,0,0,0] \<and>
   grid (CalculateNextGeneration 5 5 (CalculateNextGeneration 5 5 blinker5)) = grid blinker5"
proof -
  have h: "(5::nat) \<le> 5" "(2::nat) < 5" "sized 5 5 blinker5" "grid blinker5 = blinker_h 5 5 2 2"
    by code_simp+
  have v: "blinker_v 5 5 2 2 = [0,0,0,0,0, 0,0,0,0,0, 0,1,1,1,0, 0,0,0,0,0, 0,0,0,0,0]"
    by code_simp
  show ?thesis
    using h v blinker_period_2[OF h(1) h(1) h(2) h(2) h(3) h(4)] by simp
qed

text \<open>
  C6. A cell that is \<open>ALIVE\<close> and whose live-neighbour count is zero is \<open>DEAD\<close> after one
  generation step; and a grid whose cells are all \<open>DEAD\<close> is unchanged by any number \<open>n\<close> of
  generation steps.
\<close>

theorem lonely_cell_dies_and_dead_grid_stays_dead:
  "(sized W H s \<and> x < W \<and> y < H \<and> at H (grid s) x y = ALIVE \<and>
      LiveNeighbourCount W H x y (grid s) = 0 \<longrightarrow>
      at H (grid (CalculateNextGeneration W H s)) x y = DEAD) \<and>
   (length (gridCopy t) = W * H \<and> grid t = replicate (W * H) DEAD \<longrightarrow>
      grid ((CalculateNextGeneration W H ^^ n) t) = replicate (W * H) DEAD)"
  using steps_all_dead[of t W H n]
  by (auto simp: at_step written_def ALIVE_def DEAD_def)

theorem lonely_cell_dies_and_dead_grid_stays_dead_witness:
  "sized 3 3 three_lonely \<and> at 3 (grid three_lonely) 1 1 = ALIVE \<and>
   LiveNeighbourCount 3 3 1 1 (grid three_lonely) = 0 \<and>
   at 3 (grid (CalculateNextGeneration 3 3 three_lonely)) 1 1 = DEAD \<and>
   length (gridCopy three_dead) = 3 * 3 \<and> grid three_dead = replicate (3 * 3) DEAD \<and>
   grid ((CalculateNextGeneration 3 3 ^^ 4) three_dead) = replicate (3 * 3) DEAD"
proof -
  have h1: "sized 3 3 three_lonely" "at 3 (grid three_lonely) 1 1 = ALIVE"
      "LiveNeighbourCount 3 3 1 1 (grid three_lonely) = 0"
    by code_simp+
  have h2: "length (gridCopy three_dead) = 3 * 3" "grid three_dead = replicate (3 * 3) DEAD"
    by (simp_all add: three_dead_def)
  show ?thesis
    using h1 h2 lonely_cell_dies_and_dead_grid_stays_dead[of 3 3 three_lonely 1 1 three_dead 4]
    by simp
qed

text \<open>
  C7. On a 3 by 3 grid in which every cell is \<open>ALIVE\<close>, the live-neighbour count of every cell
  \<open>(x, y)\<close> of the grid is 8.
\<close>

theorem all_alive_3x3_count_is_8:
  "x < 3 \<Longrightarrow> y < 3 \<Longrightarrow> LiveNeighbourCount 3 3 x y (replicate 9 ALIVE) = 8"
proof -
  assume "x < 3" "y < 3"
  then have "x \<in> {0, 1, 2}" "y \<in> {0, 1, 2}" by auto
  then show ?thesis
    by (auto simp: LiveNeighbourCount_def neighbour_cells_def at_def ALIVE_def)
qed

theorem all_alive_3x3_count_is_8_witness:
  "(2::nat) < 3 \<and> (0::nat) < 3 \<and> LiveNeighbourCount 3 3 2 0 (replicate 9 ALIVE) = 8"
  using all_alive_3x3_count_is_8[of 2 0] by simp

text \<open>
  C8, the claim as stated fails: \<^verbatim>\<open>InitGrid\<close> has no check and no error path. With
  \<^verbatim>\<open>percentageInit\<close> = 150, outside 0..100, it returns a 2 by 2 grid, all \<open>ALIVE\<close>.
\<close>

theorem InitGrid_accepts_percentage_150:
  "(100::nat) < 150 \<and>
   length (grid (InitGrid 2 2 150 sample_rand two_by_two)) = 2 * 2 \<and>
   grid (InitGrid 2 2 150 sample_rand two_by_two) = [ALIVE, ALIVE, ALIVE, ALIVE]"
  by code_simp

text \<open>
  C8, amended. \<^verbatim>\<open>InitGrid\<close> validates nothing and cannot fail: for all extents, every
  percentage \<open>P\<close> and every \<^verbatim>\<open>rand\<close> sequence it returns an array of \<open>W * H\<close> cells in which
  cell \<open>(i, j)\<close> is \<open>ALIVE\<close> when the \<^verbatim>\<open>rand\<close> value drawn for it, modulo 100, is below \<open>P\<close>,
  and \<open>DEAD\<close> otherwise. A percentage of 100 or more is not an error: every cell is \<open>ALIVE\<close>.
  The extents are unsigned constants that size the arrays, so a non-positive extent is
  excluded by the types and not reported as an error.
\<close>

theorem InitGrid_never_fails:
  assumes "length (grid s) = W * H"
  shows "length (grid (InitGrid W H P rnd s)) = W * H \<and>
         (\<forall>i<W. \<forall>j<H. at H (grid (InitGrid W H P rnd s)) i j =
            (if rnd (rand_calls s + i * H + j) mod 100 < P then ALIVE else DEAD)) \<and>
         (100 \<le> P \<longrightarrow> grid (InitGrid W H P rnd s) = replicate (W * H) ALIVE)"
proof -
  have len: "length (grid (InitGrid W H P rnd s)) = W * H"
    using assms by (rule InitGrid_cells(1))
  have cells: "\<forall>i<W. \<forall>j<H. at H (grid (InitGrid W H P rnd s)) i j =
      (if rnd (rand_calls s + i * H + j) mod 100 < P then ALIVE else DEAD)"
    using InitGrid_cells(3)[OF assms] by (simp add: init_value_def ALIVE_def DEAD_def)
  have "grid (InitGrid W H P rnd s) = replicate (W * H) ALIVE" if P: "100 \<le> P"
  proof (rule board_eqI[of _ W H])
    show "length (grid (InitGrid W H P rnd s)) = W * H" by (rule len)
    show "length (replicate (W * H) ALIVE) = W * H" by simp
    fix x y assume xy: "x < W" "y < H"
    have "rnd (rand_calls s + x * H + y) mod 100 < 100" by simp
    then have "rnd (rand_calls s + x * H + y) mod 100 < P" using P by linarith
    then show "at H (grid (InitGrid W H P rnd s)) x y = at H (replicate (W * H) ALIVE) x y"
      using cells xy by (simp add: at_replicate)
  qed
  then show ?thesis using len cells by blast
qed

theorem InitGrid_never_fails_witness:
  "length (grid two_by_two) = 2 * 2 \<and> (100::nat) \<le> 150 \<and> (1::nat) < 2 \<and>
   at 2 (grid (InitGrid 2 2 150 sample_rand two_by_two)) 1 1 = ALIVE \<and>
   at 2 (grid (InitGrid 2 2 10 sample_rand two_by_two)) 1 1 = DEAD \<and>
   grid (InitGrid 2 2 150 sample_rand two_by_two) = replicate (2 * 2) ALIVE"
proof -
  have h: "length (grid two_by_two) = 2 * 2" "(100::nat) \<le> 150" "(1::nat) < 2"
    by (simp_all add: two_by_two_def)
  have v: "at 2 (grid (InitGrid 2 2 150 sample_rand two_by_two)) 1 1 = ALIVE"
      "at 2 (grid (InitGrid 2 2 10 sample_rand two_by_two)) 1 1 = DEAD"
    by code_simp+
  show ?thesis
    using h v InitGrid_never_fails[OF h(1), of 150 sample_rand] by simp
qed

text \<open>
  C9, the claim as stated fails: \<^verbatim>\<open>main\<close> declares \<^verbatim>\<open>gridCopy\<close> without an initialiser and
  calls \<^verbatim>\<open>InitGrid(grid)\<close> only, so after initialization the working array still holds
  whatever bytes it held before. Here it holds 5, 6, 7, 8, none of them 0 or 1.
\<close>

theorem InitGrid_leaves_working_array_arbitrary:
  "sized 2 2 two_by_two \<and>
   gridCopy (InitGrid 2 2 10 sample_rand two_by_two) = [5, 6, 7, 8] \<and>
   \<not> set (gridCopy (InitGrid 2 2 10 sample_rand two_by_two)) \<subseteq> {0, 1}"
  by code_simp

text \<open>
  C9, amended. \<^verbatim>\<open>InitGrid\<close> leaves only 0 or 1 in each cell of the current array and does not
  touch the working array; a generation step leaves only 0 or 1 in each cell of the current
  array and of the working array, whatever the arrays held before (so in particular for a
  grid whose cells are all 0 or 1). Hence the current array holds only 0 or 1 after
  \<^verbatim>\<open>InitGrid\<close> and any number \<open>n\<close> of steps, and the working array holds only 0 or 1 from the
  first step on.
\<close>

theorem cells_two_valued:
  "(length (grid s) = W * H \<longrightarrow>
      (\<forall>c \<in> set (grid (InitGrid W H P rnd s)). c = 0 \<or> c = 1) \<and>
      gridCopy (InitGrid W H P rnd s) = gridCopy s) \<and>
   (sized W H t \<longrightarrow>
      (\<forall>c \<in> set (grid (CalculateNextGeneration W H t)). c = 0 \<or> c = 1) \<and>
      (\<forall>c \<in> set (gridCopy (CalculateNextGeneration W H t)). c = 0 \<or> c = 1)) \<and>
   (sized W H s \<longrightarrow>
      (\<forall>c \<in> set (grid ((CalculateNextGeneration W H ^^ n) (InitGrid W H P rnd s))).
          c = 0 \<or> c = 1) \<and>
      (\<forall>c \<in> set (gridCopy ((CalculateNextGeneration W H ^^ Suc n) (InitGrid W H P rnd s))).
          c = 0 \<or> c = 1))"
proof -
  have a: "\<forall>c \<in> set (grid (InitGrid W H P rnd s)). c = 0 \<or> c = 1" if "length (grid s) = W * H"
    using InitGrid_two_valued[OF that] by blast
  have a': "gridCopy (InitGrid W H P rnd s) = gridCopy s" if "length (grid s) = W * H"
    using that by (rule InitGrid_cells(2))
  have b: "\<forall>c \<in> set (grid (CalculateNextGeneration W H u)). c = 0 \<or> c = 1" if "sized W H u" for u
    using step_two_valued[OF that] by blast
  have b': "\<forall>c \<in> set (gridCopy (CalculateNextGeneration W H u)). c = 0 \<or> c = 1" if "sized W H u" for u
    using b[OF that] that by (simp add: grid_step gridCopy_step)
  have sz: "sized W H ((CalculateNextGeneration W H ^^ m) (InitGrid W H P rnd s))"
    if "sized W H s" for m
    using that by (intro sized_steps sized_InitGrid)
  have c: "\<forall>c \<in> set (grid ((CalculateNextGeneration W H ^^ n) (InitGrid W H P rnd s))). c = 0 \<or> c = 1"
    if s: "sized W H s"
  proof (cases n)
    case 0
    then show ?thesis using a s by (simp add: sized_def)
  next
    case (Suc m)
    from b[OF sz[OF s, of m]] show ?thesis by (simp add: Suc)
  qed
  have c': "\<forall>c \<in> set (gridCopy ((CalculateNextGeneration W H ^^ Suc n) (InitGrid W H P rnd s))).
      c = 0 \<or> c = 1" if s: "sized W H s"
    using b'[OF sz[OF s, of n]] by simp
  show ?thesis using a a' b b' c c' by blast
qed

theorem cells_two_valued_witness:
  "length (grid two_by_two) = 2 * 2 \<and> sized 2 2 two_by_two \<and>
   grid (InitGrid 2 2 10 sample_rand two_by_two) = [1, 0, 0, 0] \<and>
   set (grid (InitGrid 2 2 10 sample_rand two_by_two)) \<subseteq> {0, 1} \<and>
   gridCopy (InitGrid 2 2 10 sample_rand two_by_two) = gridCopy two_by_two \<and>
   gridCopy two_by_two = [5, 6, 7, 8] \<and>
   gridCopy (CalculateNextGeneration 2 2 two_by_two) = [0, 0, 0, 0] \<and>
   set (gridCopy (CalculateNextGeneration 2 2 two_by_two)) \<subseteq> {0, 1} \<and>
   gridCopy ((CalculateNextGeneration 2 2 ^^ Suc 0) (InitGrid 2 2 10 sample_rand two_by_two)) =
     [0, 0, 0, 0]"
proof -
  have h: "length (grid two_by_two) = 2 * 2" "sized 2 2 two_by_two"
    by (simp_all add: sized_def two_by_two_def)
  have v: "grid (InitGrid 2 2 10 sample_rand two_by_two) = [1, 0, 0, 0]"
      "gridCopy two_by_two = [5, 6, 7, 8]"
      "gridCopy (CalculateNextGeneration 2 2 two_by_two) = [0, 0, 0, 0]"
      "gridCopy (CalculateNextGeneration 2 2 (InitGrid 2 2 10 sample_rand two_by_two)) =
         [0, 0, 0, 0]"
    by code_simp+
  show ?thesis
    using h v cells_two_valued[of two_by_two 2 2 10 sample_rand two_by_two 0] by simp
qed

text \<open>
  C10. When a generation step returns, the current array and the working array hold the same
  contents, cell for cell: the \<^verbatim>\<open>memcpy\<close> copies the working array and leaves it as the
  loops wrote it.
\<close>

theorem step_leaves_buffers_equal:
  "sized W H s \<Longrightarrow>
   grid (CalculateNextGeneration W H s) = gridCopy (CalculateNextGeneration W H s) \<and>
   gridCopy (CalculateNextGeneration W H s) = gridCopy (update_all W H s)"
proof -
  assume "sized W H s"
  then have g: "grid (CalculateNextGeneration W H s) = gridCopy (update_all W H s)"
    by (rule grid_step)
  have c: "gridCopy (CalculateNextGeneration W H s) = gridCopy (update_all W H s)"
    by (rule gridCopy_step)
  show ?thesis using g c by simp
qed

theorem step_leaves_buffers_equal_witness:
  "sized 2 2 two_by_two \<and>
   grid (CalculateNextGeneration 2 2 two_by_two) = gridCopy (CalculateNextGeneration 2 2 two_by_two) \<and>
   gridCopy (CalculateNextGeneration 2 2 two_by_two) = [0, 0, 0, 0]"
proof -
  have h: "sized 2 2 two_by_two" by (simp add: sized_def two_by_two_def)
  have v: "gridCopy (CalculateNextGeneration 2 2 two_by_two) = [0, 0, 0, 0]" by code_simp
  show ?thesis using h v step_leaves_buffers_equal[OF h] by simp
qed

end
